theory Spec2Isabelle
  imports Main "HOL-Library.Word" "HOL-Library.Sublist"
begin

section \<open>Package names: \<open>toValidPackageName\<close> (src/cli/index.ts)\<close>

text \<open>
  A JavaScript string is a sequence of UTF-16 code units. The source is
  \<^verbatim>\<open>
  function toValidPackageName(projectName) {
    return projectName
      .trim()
      .toLowerCase()
      .replace(/\s+/g, '-')
      .replace(/^[._]/, '')
      .replace(/[^a-z0-9-~]+/g, '-')
  }
  \<close>
\<close>

type_synonym code_unit = "16 word"
type_synonym jsstring = "code_unit list"

text \<open>
  The code units that \<open>trim\<close> strips and that \<open>\s\<close> matches: ECMAScript's WhiteSpace
  and LineTerminator (tab, LF, VT, FF, CR, space, NBSP, U+1680, U+2000..U+200A, U+2028,
  U+2029, U+202F, U+205F, U+3000, U+FEFF).
\<close>

definition isWhiteSpace :: "code_unit \<Rightarrow> bool" where
  "isWhiteSpace c =
     (let n = unat c in
        n = 0x9 \<or> n = 0xA \<or> n = 0xB \<or> n = 0xC \<or> n = 0xD \<or> n = 0x20 \<or> n = 0xA0 \<or>
        n = 0x1680 \<or> (0x2000 \<le> n \<and> n \<le> 0x200A) \<or> n = 0x2028 \<or> n = 0x2029 \<or>
        n = 0x202F \<or> n = 0x205F \<or> n = 0x3000 \<or> n = 0xFEFF)"

definition trim :: "jsstring \<Rightarrow> jsstring" where
  "trim s = rev (dropWhile isWhiteSpace (rev (dropWhile isWhiteSpace s)))"

text \<open>
  \<open>toLowerCase\<close>, one code unit at a time. The letters A..Z go to a..z; the two code
  units outside ASCII whose lower case contains an ASCII letter are written out: KELVIN
  SIGN U+212A becomes \<open>k\<close>, and LATIN CAPITAL LETTER I WITH DOT ABOVE U+0130 becomes \<open>i\<close>
  followed by U+0307. Every other code unit outside ASCII is mapped by \<open>toLowerCase\<close> to
  code units outside ASCII again (none of them white space); it is kept as it is here,
  since the last replacement of \<open>toValidPackageName\<close> turns either into the same dash.
\<close>

definition lowerUnit :: "code_unit \<Rightarrow> jsstring" where
  "lowerUnit c =
     (let n = unat c in
        if 0x41 \<le> n \<and> n \<le> 0x5A then [c + 0x20]
        else if n = 0x212A then [0x6B]
        else if n = 0x130 then [0x69, 0x307]
        else [c])"

definition toLowerCase :: "jsstring \<Rightarrow> jsstring" where
  "toLowerCase s = concat (map lowerUnit s)"

text \<open>
  \<open>s.replace(/[C]+/g, r)\<close> for a character class \<open>C\<close>: every maximal run of code units
  of the class is replaced by \<open>r\<close>. The flag says whether the previous code unit was
  already part of a run.
\<close>

primrec replaceRuns :: "(code_unit \<Rightarrow> bool) \<Rightarrow> jsstring \<Rightarrow> bool \<Rightarrow> jsstring \<Rightarrow> jsstring" where
  "replaceRuns cls r inRun [] = []"
| "replaceRuns cls r inRun (c # cs) =
     (if cls c then (if inRun then replaceRuns cls r True cs else r @ replaceRuns cls r True cs)
      else c # replaceRuns cls r False cs)"

text \<open>\<open>s.replace(/^[._]/, '')\<close>: a leading dot (0x2E) or underscore (0x5F) is dropped.\<close>

definition dropLeadingDotOrUnderscore :: "jsstring \<Rightarrow> jsstring" where
  "dropLeadingDotOrUnderscore s =
     (case s of [] \<Rightarrow> [] | c # cs \<Rightarrow> if c = 0x2E \<or> c = 0x5F then cs else c # cs)"

text \<open>The class \<open>[a-z0-9-~]\<close>; the last replacement matches its complement.\<close>

definition isNameUnit :: "code_unit \<Rightarrow> bool" where
  "isNameUnit c =
     (let n = unat c in
        (0x61 \<le> n \<and> n \<le> 0x7A) \<or> (0x30 \<le> n \<and> n \<le> 0x39) \<or> n = 0x2D \<or> n = 0x7E)"

definition toValidPackageName :: "jsstring \<Rightarrow> jsstring" where
  "toValidPackageName projectName =
     replaceRuns (\<lambda>c. \<not> isNameUnit c) [0x2D] False
       (dropLeadingDotOrUnderscore
          (replaceRuns isWhiteSpace [0x2D] False
             (toLowerCase (trim projectName))))"

section \<open>The file system\<close>

text \<open>
  Both source files work on the file system through \<open>node:fs\<close> and \<open>node:path\<close>. A path
  is the list of its components below the root; a file system is the list of its nodes,
  each with its absolute path, and the journal of the mutations made so far. The root is
  the empty path and always a directory. Symbolic links are not modelled.
\<close>

type_synonym path = "string list"

datatype entry = File string | Directory

datatype syscall = Mkdir path | Rmdir path | Unlink path

datatype error = ENOENT | ENOTDIR | EEXIST | ENOTEMPTY | EISDIR | EBUSY

record filesystem =
  nodes :: "(path \<times> entry) list"
  journal :: "syscall list"

text \<open>How a call ends: it returns, it throws, or the recursion is cut off by its depth bound.\<close>

datatype outcome = Returned | Threw error | OutOfFuel

definition lookup :: "filesystem \<Rightarrow> path \<Rightarrow> entry option" where
  "lookup s p = (if p = [] then Some Directory else map_of (nodes s) p)"

fun isDirectory :: "entry \<Rightarrow> bool" where
  "isDirectory Directory = True"
| "isDirectory (File c) = False"

definition isFileAt :: "filesystem \<Rightarrow> path \<Rightarrow> bool" where
  "isFileAt s p = (case lookup s p of Some (File c) \<Rightarrow> True | _ \<Rightarrow> False)"

text \<open>\<open>path.resolve(dir, name)\<close> for an absolute \<open>dir\<close> and a name read from a directory.\<close>

definition resolve :: "path \<Rightarrow> string \<Rightarrow> path" where
  "resolve dir name = dir @ [name]"

text \<open>\<open>path.basename(p)\<close>: the last component, the empty string for the root.\<close>

definition basename :: "path \<Rightarrow> string" where
  "basename p = (if p = [] then [] else last p)"

text \<open>
  The error of a call on a path that does not exist: \<open>ENOTDIR\<close> when the path runs
  through a regular file, that is, when something above it is a regular file, and
  \<open>ENOENT\<close> otherwise.
\<close>

definition throughFile :: "filesystem \<Rightarrow> path \<Rightarrow> bool" where
  "throughFile s p = list_ex (\<lambda>q. q \<noteq> p \<and> isFileAt s q) (prefixes p)"

definition missingError :: "filesystem \<Rightarrow> path \<Rightarrow> error" where
  "missingError s p = (if throughFile s p then ENOTDIR else ENOENT)"

text \<open>\<open>fs.statSync\<close> and \<open>fs.lstatSync\<close> throw for a path that does not exist.\<close>

definition statSync :: "filesystem \<Rightarrow> path \<Rightarrow> error + entry" where
  "statSync s p = (case lookup s p of None \<Rightarrow> Inl (missingError s p) | Some e \<Rightarrow> Inr e)"

definition lstatSync :: "filesystem \<Rightarrow> path \<Rightarrow> error + entry" where
  "lstatSync s p = statSync s p"

definition existsSync :: "filesystem \<Rightarrow> path \<Rightarrow> bool" where
  "existsSync s p = (lookup s p \<noteq> None)"

text \<open>The names of the immediate entries of a directory, in the order the nodes are stored.\<close>

definition listing :: "filesystem \<Rightarrow> path \<Rightarrow> string list" where
  "listing s p =
     remdups (map (\<lambda>(q, e). last q) (filter (\<lambda>(q, e). q \<noteq> [] \<and> butlast q = p) (nodes s)))"

definition readdirSync :: "filesystem \<Rightarrow> path \<Rightarrow> error + string list" where
  "readdirSync s p =
     (case lookup s p of
        None \<Rightarrow> Inl (missingError s p)
      | Some (File c) \<Rightarrow> Inl ENOTDIR
      | Some Directory \<Rightarrow> Inr (listing s p))"

text \<open>
  \<open>fs.mkdirSync(p, { recursive: true })\<close>: every missing directory along \<open>p\<close> is created,
  an existing directory is left alone, and a regular file in the way is an error.
\<close>

definition mkdir1 :: "path \<Rightarrow> filesystem \<Rightarrow> filesystem" where
  "mkdir1 p s =
     (if lookup s p = None
      then s\<lparr>nodes := nodes s @ [(p, Directory)], journal := journal s @ [Mkdir p]\<rparr>
      else s)"

definition mkdirSync_recursive :: "path \<Rightarrow> filesystem \<Rightarrow> error + filesystem" where
  "mkdirSync_recursive p s =
     (if list_ex (\<lambda>q. q \<noteq> p \<and> isFileAt s q) (prefixes p) then Inl ENOTDIR
      else if isFileAt s p then Inl EEXIST
      else Inr (fold mkdir1 (prefixes p) s))"

text \<open>\<open>fs.rmdirSync\<close> removes an empty directory only; \<open>fs.unlinkSync\<close> removes a file.\<close>

definition removeNode :: "path \<Rightarrow> syscall \<Rightarrow> filesystem \<Rightarrow> filesystem" where
  "removeNode p call s =
     s\<lparr>nodes := filter (\<lambda>(q, e). q \<noteq> p) (nodes s), journal := journal s @ [call]\<rparr>"

definition rmdirSync :: "path \<Rightarrow> filesystem \<Rightarrow> error + filesystem" where
  "rmdirSync p s =
     (case lookup s p of
        None \<Rightarrow> Inl (missingError s p)
      | Some (File c) \<Rightarrow> Inl ENOTDIR
      | Some Directory \<Rightarrow>
          if p = [] then Inl EBUSY
          else if listing s p \<noteq> [] then Inl ENOTEMPTY
          else Inr (removeNode p (Rmdir p) s))"

definition unlinkSync :: "path \<Rightarrow> filesystem \<Rightarrow> error + filesystem" where
  "unlinkSync p s =
     (case lookup s p of
        None \<Rightarrow> Inl (missingError s p)
      | Some Directory \<Rightarrow> Inl EISDIR
      | Some (File c) \<Rightarrow> Inr (removeNode p (Unlink p) s))"

text \<open>A mutating call as a step: on an error the file system is as it was.\<close>

definition attempt :: "error + filesystem \<Rightarrow> filesystem \<Rightarrow> outcome \<times> filesystem" where
  "attempt r s = (case r of Inl e \<Rightarrow> (Threw e, s) | Inr s' \<Rightarrow> (Returned, s'))"

text \<open>
  \<open>for (const x of xs) body(x)\<close>: the elements in order, each on the file system the
  previous one left; the loop ends at the first one that does not return.
\<close>

primrec forOf :: "('a \<Rightarrow> filesystem \<Rightarrow> outcome \<times> filesystem) \<Rightarrow> 'a list \<Rightarrow> filesystem
    \<Rightarrow> outcome \<times> filesystem" where
  "forOf body [] s = (Returned, s)"
| "forOf body (x # xs) s =
     (case body x s of (out, s') \<Rightarrow> if out = Returned then forOf body xs s' else (out, s'))"

section \<open>The template renderer: \<open>renderTemplate\<close> (src/cli/utils/renderTemplate.ts)\<close>

text \<open>
  \<^verbatim>\<open>
  function renderTemplate(src, dest) {
    const stats = fs.statSync(src)
    if (stats.isDirectory()) {
      if (path.basename(src) === 'node_modules') return
      fs.mkdirSync(dest, { recursive: true })
      for (const file of fs.readdirSync(src)) {
        renderTemplate(path.resolve(src, file), path.resolve(dest, file))
      }
      return
    }
  }
  \<close>
  The first argument bounds the depth of the recursion: the destination may lie inside
  the source, and then every level creates the directory the next level descends into.
\<close>

primrec renderTemplate :: "nat \<Rightarrow> path \<Rightarrow> path \<Rightarrow> filesystem \<Rightarrow> outcome \<times> filesystem" where
  "renderTemplate 0 src dest s = (OutOfFuel, s)"
| "renderTemplate (Suc n) src dest s =
     (case statSync s src of
        Inl e \<Rightarrow> (Threw e, s)
      | Inr stats \<Rightarrow>
          if isDirectory stats then
            if basename src = ''node_modules'' then (Returned, s)
            else
              (case mkdirSync_recursive dest s of
                 Inl e \<Rightarrow> (Threw e, s)
               | Inr s1 \<Rightarrow>
                   (case readdirSync s1 src of
                      Inl e \<Rightarrow> (Threw e, s1)
                    | Inr files \<Rightarrow>
                        forOf (\<lambda>file. renderTemplate n (resolve src file) (resolve dest file))
                          files s1))
          else (Returned, s))"

section \<open>The directory reconciler: \<open>canSkipEmptying\<close> and \<open>emptyDir\<close> (src/cli/index.ts)\<close>

text \<open>
  \<^verbatim>\<open>
  function canSkipEmptying(dir: string) {
    if (!fs.existsSync(dir)) return true
    const files = fs.readdirSync(dir)
    if (files.length === 0) return true
    if (files.length === 1 && files[0] === '.git') return true
    return false
  }
  \<close>
\<close>

definition canSkipEmptying :: "filesystem \<Rightarrow> path \<Rightarrow> error + bool" where
  "canSkipEmptying s dir =
     (if \<not> existsSync s dir then Inr True
      else
        (case readdirSync s dir of
           Inl e \<Rightarrow> Inl e
         | Inr files \<Rightarrow>
             if length files = 0 then Inr True
             else if length files = 1 \<and> files ! 0 = ''.git'' then Inr True
             else Inr False))"

text \<open>
  Modelled from the spec: \<open>postOrderDirectoryTraverse\<close> of \<open>./utils/directoryTraverse\<close>,
  which \<open>index.ts\<close> imports and which is not among the sources. The spec's words are:
  "recursively deletes all descendants and the directory's own contents using post-order
  traversal -- all children of a directory must be removed before the directory itself
  is removed"; "deletion order within a directory's children is unspecified"; an I/O
  error "propagates to the caller". So: for every entry of \<open>dir\<close>, a directory is
  traversed and then handed to \<open>dirCallback\<close>, anything else is handed to
  \<open>fileCallback\<close>; \<open>dir\<close> itself is handed to neither. The first argument bounds the
  depth of the recursion.
\<close>

primrec postOrderDirectoryTraverse :: "nat \<Rightarrow> path \<Rightarrow> (path \<Rightarrow> filesystem \<Rightarrow> outcome \<times> filesystem)
    \<Rightarrow> (path \<Rightarrow> filesystem \<Rightarrow> outcome \<times> filesystem) \<Rightarrow> filesystem \<Rightarrow> outcome \<times> filesystem" where
  "postOrderDirectoryTraverse 0 dir dirCallback fileCallback s = (OutOfFuel, s)"
| "postOrderDirectoryTraverse (Suc n) dir dirCallback fileCallback s =
     (case readdirSync s dir of
        Inl e \<Rightarrow> (Threw e, s)
      | Inr names \<Rightarrow>
          forOf (\<lambda>filename s1.
              (case lstatSync s1 (resolve dir filename) of
                 Inl e \<Rightarrow> (Threw e, s1)
               | Inr stats \<Rightarrow>
                   if isDirectory stats then
                     (case postOrderDirectoryTraverse n (resolve dir filename)
                             dirCallback fileCallback s1 of
                        (out, s2) \<Rightarrow>
                          if out = Returned then dirCallback (resolve dir filename) s2
                          else (out, s2))
                   else fileCallback (resolve dir filename) s1))
            names s)"

text \<open>
  \<^verbatim>\<open>
  function emptyDir(dir) {
    if (!fs.existsSync(dir)) {
      return
    }
    postOrderDirectoryTraverse(
      dir,
      (dir) => fs.rmdirSync(dir),
      (file) => fs.unlinkSync(file)
    )
  }
  \<close>
\<close>

definition emptyDir :: "nat \<Rightarrow> path \<Rightarrow> filesystem \<Rightarrow> outcome \<times> filesystem" where
  "emptyDir fuel dir s =
     (if \<not> existsSync s dir then (Returned, s)
      else
        postOrderDirectoryTraverse fuel dir
          (\<lambda>dir s1. attempt (rmdirSync dir s1) s1)
          (\<lambda>file s1. attempt (unlinkSync file s1) s1)
          s)"

section \<open>Notions the properties are stated with\<close>

text \<open>The names of the immediate entries of a directory, as a set.\<close>

definition entriesOf :: "filesystem \<Rightarrow> path \<Rightarrow> string set" where
  "entriesOf s dir = {name. lookup s (dir @ [name]) \<noteq> None}"

text \<open>
  A file system is well formed when every node has a name and lies in a directory: no
  node hangs below a regular file or below nothing.
\<close>

definition wellFormed :: "filesystem \<Rightarrow> bool" where
  "wellFormed s =
     list_all (\<lambda>(p, e). p \<noteq> [] \<and> lookup s (butlast p) = Some Directory) (nodes s)"

abbreviation keys :: "filesystem \<Rightarrow> path set" where
  "keys s \<equiv> fst ` set (nodes s)"

text \<open>The path a journal entry is about.\<close>

fun target :: "syscall \<Rightarrow> path" where
  "target (Mkdir p) = p"
| "target (Rmdir p) = p"
| "target (Unlink p) = p"

text \<open>
  A sequence of removals is in post-order when nothing is removed after one of its
  ancestors: whatever lies below a path precedes the path.
\<close>

primrec postOrder :: "path list \<Rightarrow> bool" where
  "postOrder [] = True"
| "postOrder (p # ps) = (list_all (\<lambda>q. \<not> strict_prefix p q) ps \<and> postOrder ps)"

text \<open>The file system with the directories \<open>ds\<close> created, in this order.\<close>

definition createdDirs :: "path list \<Rightarrow> filesystem \<Rightarrow> filesystem" where
  "createdDirs ds s =
     s\<lparr>nodes := nodes s @ map (\<lambda>p. (p, Directory)) ds, journal := journal s @ map Mkdir ds\<rparr>"

text \<open>
  The paths a rendering into \<open>dest\<close> may create: the ancestors of \<open>dest\<close>, and the paths
  at or below \<open>dest\<close> that have no component \<open>node_modules\<close> below \<open>dest\<close>.
\<close>

definition rendered :: "path \<Rightarrow> path \<Rightarrow> bool" where
  "rendered dest p =
     (strict_prefix p dest \<or> (\<exists>rel. p = dest @ rel \<and> ''node_modules'' \<notin> set rel))"

text \<open>The file system with the nodes at the paths of \<open>K\<close> removed by the calls \<open>calls\<close>.\<close>

definition prune :: "(path \<Rightarrow> bool) \<Rightarrow> syscall list \<Rightarrow> filesystem \<Rightarrow> filesystem" where
  "prune K calls s =
     s\<lparr>nodes := filter (\<lambda>(p, e). \<not> K p) (nodes s), journal := journal s @ calls\<rparr>"

text \<open>The calls remove the nodes of \<open>s\<close> at the paths of \<open>K\<close>, each once or more, in post-order.\<close>

definition removal :: "(path \<Rightarrow> bool) \<Rightarrow> filesystem \<Rightarrow> syscall list \<Rightarrow> bool" where
  "removal K s calls =
     (postOrder (map target calls) \<and> set (map target calls) = {p \<in> keys s. K p})"

text \<open>The two callbacks of \<open>emptyDir\<close>, and the loop body of the traversal it starts.\<close>

abbreviation rmCallback :: "path \<Rightarrow> filesystem \<Rightarrow> outcome \<times> filesystem" where
  "rmCallback \<equiv> (\<lambda>dir s1. attempt (rmdirSync dir s1) s1)"

abbreviation unlinkCallback :: "path \<Rightarrow> filesystem \<Rightarrow> outcome \<times> filesystem" where
  "unlinkCallback \<equiv> (\<lambda>file s1. attempt (unlinkSync file s1) s1)"

definition entryBody :: "nat \<Rightarrow> path \<Rightarrow> string \<Rightarrow> filesystem \<Rightarrow> outcome \<times> filesystem" where
  "entryBody n dir =
     (\<lambda>filename s1.
        (case lstatSync s1 (resolve dir filename) of
           Inl e \<Rightarrow> (Threw e, s1)
         | Inr stats \<Rightarrow>
             if isDirectory stats then
               (case postOrderDirectoryTraverse n (resolve dir filename)
                       rmCallback unlinkCallback s1 of
                  (out, s2) \<Rightarrow>
                    if out = Returned then rmCallback (resolve dir filename) s2
                    else (out, s2))
             else unlinkCallback (resolve dir filename) s1))"

text \<open>
  A file system to run the code on: a template with a dot file stored under an
  underscore, a manifest, a dependency cache and a source directory; a project that has
  a manifest already; and a repository that holds nothing but \<open>.git\<close>.
\<close>

definition exampleTree :: filesystem where
  "exampleTree =
     \<lparr>nodes =
        [([''template''], Directory),
         ([''template'', ''_gitignore''], File ''node_modules''),
         ([''template'', ''package.json''], File ''{version:1.0.0,deps:{a:1}}''),
         ([''template'', ''node_modules''], Directory),
         ([''template'', ''node_modules'', ''leftover.txt''], File ''x''),
         ([''template'', ''src''], Directory),
         ([''template'', ''src'', ''main.ts''], File ''export {}''),
         ([''project''], Directory),
         ([''project'', ''package.json''], File ''{name:x,deps:{b:2}}''),
         ([''repo''], Directory),
         ([''repo'', ''.git''], Directory)],
      journal = []\<rparr>"

section \<open>Package names\<close>

lemma nameUnit_not_whiteSpace: "isNameUnit c \<Longrightarrow> \<not> isWhiteSpace c"
  by (auto simp: isNameUnit_def isWhiteSpace_def Let_def)

lemma nameUnit_lowerUnit: "isNameUnit c \<Longrightarrow> lowerUnit c = [c]"
  by (auto simp: isNameUnit_def lowerUnit_def Let_def)

lemma nameUnit_dash: "isNameUnit 0x2D"
  by (simp add: isNameUnit_def)

lemma replaceRuns_none: "\<forall>c\<in>set s. \<not> cls c \<Longrightarrow> replaceRuns cls r b s = s"
  by (induction s arbitrary: b) auto

lemma replaceRuns_outside:
  "\<forall>c\<in>set r. \<not> cls c \<Longrightarrow> \<forall>c\<in>set (replaceRuns cls r b s). \<not> cls c"
  by (induction s arbitrary: b) auto

lemma trim_none:
  assumes "\<forall>c\<in>set s. \<not> isWhiteSpace c"
  shows "trim s = s"
proof -
  have keep: "dropWhile isWhiteSpace t = t" if "\<forall>c\<in>set t. \<not> isWhiteSpace c" for t
    using that by (cases t) auto
  from assms show ?thesis by (simp add: trim_def keep)
qed

lemma toLowerCase_names: "\<forall>c\<in>set s. isNameUnit c \<Longrightarrow> toLowerCase s = s"
  by (induction s) (auto simp: toLowerCase_def nameUnit_lowerUnit)

lemma dropLeading_names: "\<forall>c\<in>set s. isNameUnit c \<Longrightarrow> dropLeadingDotOrUnderscore s = s"
  by (cases s) (auto simp: dropLeadingDotOrUnderscore_def isNameUnit_def)

lemma toValidPackageName_units: "\<forall>c\<in>set (toValidPackageName s). isNameUnit c"
  using replaceRuns_outside[of "[0x2D]" "\<lambda>c. \<not> isNameUnit c" False]
  by (simp add: toValidPackageName_def nameUnit_dash)

lemma toValidPackageName_fixes_names:
  "\<forall>c\<in>set s. isNameUnit c \<Longrightarrow> toValidPackageName s = s"
  by (simp add: toValidPackageName_def trim_none toLowerCase_names dropLeading_names
      replaceRuns_none nameUnit_not_whiteSpace)

text \<open>
  C10. \<open>toValidPackageName\<close> is idempotent: applied to its own result it returns that
  result, for every input string. Its result holds only code units of \<open>[a-z0-9-~]\<close>,
  and none of its five steps changes such a string.
\<close>

theorem toValidPackageName_idempotent:
  "toValidPackageName (toValidPackageName s) = toValidPackageName s"
  by (rule toValidPackageName_fixes_names) (rule toValidPackageName_units)

section \<open>Reading the file system\<close>

lemma isDirectory_iff: "isDirectory e \<longleftrightarrow> e = Directory"
  by (cases e) auto

lemma lookup_keys: "p \<noteq> [] \<Longrightarrow> lookup s p \<noteq> None \<longleftrightarrow> p \<in> keys s"
  by (simp add: lookup_def map_of_eq_None_iff)

lemma set_listing: "set (listing s dir) = entriesOf s dir"
proof -
  have "name \<in> set (listing s dir) \<longleftrightarrow> dir @ [name] \<in> keys s" for name
  proof
    assume "name \<in> set (listing s dir)"
    then obtain q e where q: "(q, e) \<in> set (nodes s)" "q \<noteq> []" "butlast q = dir" "last q = name"
      by (auto simp: listing_def)
    then have "q = dir @ [name]" using append_butlast_last_id by metis
    then show "dir @ [name] \<in> keys s" using q(1) by force
  next
    assume "dir @ [name] \<in> keys s"
    then obtain e where "(dir @ [name], e) \<in> set (nodes s)" by auto
    then show "name \<in> set (listing s dir)" by (force simp: listing_def)
  qed
  then show ?thesis
    by (auto simp: entriesOf_def lookup_def map_of_eq_None_iff)
qed

lemma distinct_listing: "distinct (listing s dir)"
  by (simp add: listing_def)

lemma listing_empty_iff: "listing s d = [] \<longleftrightarrow> (\<forall>name. lookup s (d @ [name]) = None)"
  using set_listing[of s d] by (auto simp: entriesOf_def)

lemma distinct_singleton:
  assumes "distinct xs"
  shows "(length xs = 1 \<and> xs ! 0 = a) \<longleftrightarrow> set xs = {a}"
proof (cases xs)
  case Nil
  then show ?thesis by simp
next
  case (Cons x ys)
  with assms show ?thesis by (cases ys) auto
qed

section \<open>The for-of loop\<close>

lemma forOf_invariant:
  assumes "forOf body xs s = (out, s')" and "I s"
    and "\<And>x t out' t'. x \<in> set xs \<Longrightarrow> I t \<Longrightarrow> body x t = (out', t') \<Longrightarrow> I t'"
  shows "I s'"
  using assms
proof (induction xs arbitrary: s)
  case Nil
  then show ?case by simp
next
  case (Cons x xs)
  obtain o1 t1 where b: "body x s = (o1, t1)" by (cases "body x s")
  have I1: "I t1" using Cons.prems(2,3) b by auto
  show ?case
  proof (cases "o1 = Returned")
    case True
    then have f: "forOf body xs t1 = (out, s')" using Cons.prems(1) b by simp
    show ?thesis
    proof (rule Cons.IH[OF f I1])
      fix y t out' t'
      assume "y \<in> set xs" "I t" "body y t = (out', t')"
      then show "I t'" using Cons.prems(3)[of y t out' t'] by simp
    qed
  next
    case False
    then have "s' = t1" using Cons.prems(1) b by simp
    then show ?thesis using I1 by simp
  qed
qed

section \<open>Created directories\<close>

lemma createdDirs_Nil: "createdDirs [] s = s"
  by (simp add: createdDirs_def)

lemma createdDirs_append: "createdDirs ds2 (createdDirs ds1 s) = createdDirs (ds1 @ ds2) s"
  by (simp add: createdDirs_def)

lemma map_of_directories:
  "map_of (map (\<lambda>p. (p, Directory)) ds) p = (if p \<in> set ds then Some Directory else None)"
  by (induction ds) auto

lemma lookup_createdDirs:
  "lookup (createdDirs ds s) p =
     (case lookup s p of
        Some e \<Rightarrow> Some e
      | None \<Rightarrow> if p \<in> set ds then Some Directory else None)"
  by (auto simp: lookup_def createdDirs_def map_of_directories map_add_def split: option.splits)

lemma mkdir1_createdDirs: "\<exists>ds. mkdir1 p s = createdDirs ds s \<and> set ds \<subseteq> {p}"
proof (cases "lookup s p = None")
  case True
  then have "mkdir1 p s = createdDirs [p] s" by (simp add: mkdir1_def createdDirs_def)
  then show ?thesis by auto
next
  case False
  then have "mkdir1 p s = createdDirs [] s" by (simp add: mkdir1_def createdDirs_Nil)
  then show ?thesis by auto
qed

lemma fold_mkdir1_createdDirs: "\<exists>ds. fold mkdir1 ps s = createdDirs ds s \<and> set ds \<subseteq> set ps"
proof (induction ps arbitrary: s)
  case Nil
  show ?case using createdDirs_Nil[of s] by auto
next
  case (Cons p ps)
  obtain d1 where d1: "mkdir1 p s = createdDirs d1 s" "set d1 \<subseteq> {p}"
    using mkdir1_createdDirs by blast
  obtain d2 where d2: "fold mkdir1 ps (mkdir1 p s) = createdDirs d2 (mkdir1 p s)" "set d2 \<subseteq> set ps"
    using Cons.IH by blast
  have "fold mkdir1 (p # ps) s = createdDirs (d1 @ d2) s"
    using d1 d2 by (simp add: createdDirs_append)
  moreover have "set (d1 @ d2) \<subseteq> set (p # ps)" using d1 d2 by auto
  ultimately show ?case by blast
qed

lemma mkdirSync_recursive_createdDirs:
  assumes "mkdirSync_recursive p s = Inr s1"
  shows "\<exists>ds. s1 = createdDirs ds s \<and> (\<forall>q\<in>set ds. prefix q p)"
proof -
  from assms have "s1 = fold mkdir1 (prefixes p) s"
    by (simp add: mkdirSync_recursive_def split: if_splits)
  then show ?thesis using fold_mkdir1_createdDirs[of "prefixes p" s] by (auto simp: subset_iff)
qed

lemma rendered_prefix:
  assumes "prefix q dest"
  shows "rendered dest q"
proof (cases "q = dest")
  case True
  then have "q = dest @ [] \<and> ''node_modules'' \<notin> set []" by simp
  then show ?thesis unfolding rendered_def by blast
next
  case False
  with assms show ?thesis by (simp add: rendered_def strict_prefix_def)
qed

lemma rendered_child:
  assumes "rendered (dest @ [f]) p" and "f \<noteq> ''node_modules''"
  shows "rendered dest p"
proof -
  from assms(1) consider "strict_prefix p (dest @ [f])"
    | rel where "p = (dest @ [f]) @ rel" "''node_modules'' \<notin> set rel"
    unfolding rendered_def by blast
  then show ?thesis
  proof cases
    case 1
    then have "prefix p dest" by (auto simp: strict_prefix_def prefix_snoc)
    then show ?thesis by (rule rendered_prefix)
  next
    case 2
    then have "p = dest @ (f # rel)" "''node_modules'' \<notin> set (f # rel)" using assms(2) by auto
    then show ?thesis unfolding rendered_def by blast
  qed
qed

text \<open>
  What a rendering does to the file system, however it ends: it creates directories,
  each an ancestor of the destination or a path below it with no \<open>node_modules\<close> on the
  way, and none at all when the source is named \<open>node_modules\<close>.
\<close>

lemma renderTemplate_createdDirs:
  "renderTemplate n src dest s = (out, s') \<Longrightarrow>
     \<exists>ds. s' = createdDirs ds s \<and> (\<forall>p\<in>set ds. rendered dest p) \<and>
          (basename src = ''node_modules'' \<longrightarrow> ds = [])"
proof (induction n arbitrary: src dest s out s')
  case 0
  then have "s' = createdDirs [] s" by (simp add: createdDirs_Nil)
  then show ?case by fastforce
next
  case (Suc n)
  show ?case
  proof (cases "\<exists>s1. lookup s src = Some Directory \<and> basename src \<noteq> ''node_modules'' \<and>
        mkdirSync_recursive dest s = Inr s1")
    case False
    then have "s' = s" using Suc.prems
      by (auto simp: statSync_def isDirectory_iff split: option.splits sum.splits if_splits)
    then have "s' = createdDirs [] s" by (simp add: createdDirs_Nil)
    then show ?thesis by fastforce
  next
    case True
    then obtain s1 where h: "lookup s src = Some Directory" "basename src \<noteq> ''node_modules''"
        "mkdirSync_recursive dest s = Inr s1" by blast
    obtain d0 where d0: "s1 = createdDirs d0 s" "\<forall>q\<in>set d0. prefix q dest"
      using mkdirSync_recursive_createdDirs[OF h(3)] by blast
    have "lookup s1 src = Some Directory"
      using h(1) d0(1) by (simp add: lookup_createdDirs)
    then have rd: "readdirSync s1 src = Inr (listing s1 src)"
      by (simp add: readdirSync_def)
    let ?body = "\<lambda>file. renderTemplate n (resolve src file) (resolve dest file)"
    let ?I = "\<lambda>t. \<exists>ds. t = createdDirs ds s \<and> (\<forall>p\<in>set ds. rendered dest p)"
    have loop: "forOf ?body (listing s1 src) s1 = (out, s')"
      using Suc.prems h rd by (simp add: statSync_def)
    have I1: "?I s1"
      using d0 rendered_prefix by blast
    have step: "?I t'" if I: "?I t" and b: "?body x t = (out', t')" for x t out' t'
    proof -
      from I obtain e0 where e0: "t = createdDirs e0 s" "\<forall>p\<in>set e0. rendered dest p" by blast
      from Suc.IH[OF b] obtain e1 where e1: "t' = createdDirs e1 t"
          "\<forall>p\<in>set e1. rendered (resolve dest x) p"
          "basename (resolve src x) = ''node_modules'' \<longrightarrow> e1 = []" by blast
      have "\<forall>p\<in>set e1. rendered dest p"
      proof (cases "x = ''node_modules''")
        case True
        then show ?thesis using e1(3) by (simp add: basename_def resolve_def)
      next
        case False
        then show ?thesis using e1(2) rendered_child by (auto simp: resolve_def)
      qed
      then have "t' = createdDirs (e0 @ e1) s \<and> (\<forall>p\<in>set (e0 @ e1). rendered dest p)"
        using e0 e1(1) by (auto simp: createdDirs_append)
      then show "?I t'" by blast
    qed
    have "?I s'"
      by (rule forOf_invariant[where I = "?I", OF loop I1]) (rule step)
    then show ?thesis using h(2) by blast
  qed
qed

text \<open>The example template rendered into the example project.\<close>

lemma render_example:
  "renderTemplate 3 [''template''] [''project''] exampleTree =
     (Returned, createdDirs [[''project'', ''src'']] exampleTree)"
  by (simp add: eval_nat_numeral statSync_def lookup_def exampleTree_def basename_def
      mkdirSync_recursive_def isFileAt_def mkdir1_def readdirSync_def listing_def resolve_def
      createdDirs_def)

section \<open>The template renderer\<close>

text \<open>
  C1. The claim: after \<open>render(T, D)\<close> every file of the template \<open>T\<close> is found in \<open>D\<close>
  at its transformed path with the same bytes. The code has no branch for a source that
  is a regular file: on the example the rendering returns, the file
  \<open>template/src/main.ts\<close> exists, its directory \<open>project/src\<close> is created, and no file
  \<open>project/src/main.ts\<close> exists afterwards.
\<close>

theorem renderTemplate_copies_no_file:
  "fst (renderTemplate 3 [''template''] [''project''] exampleTree) = Returned \<and>
   lookup exampleTree [''template'', ''src'', ''main.ts''] = Some (File ''export {}'') \<and>
   lookup (snd (renderTemplate 3 [''template''] [''project''] exampleTree))
     [''project'', ''src''] = Some Directory \<and>
   lookup (snd (renderTemplate 3 [''template''] [''project''] exampleTree))
     [''project'', ''src'', ''main.ts''] = None"
  by (simp add: render_example lookup_createdDirs) (simp add: lookup_def exampleTree_def)

text \<open>
  C2. The claim: a source file \<open>_foo\<close> is written as \<open>.foo\<close>, any other file under its own
  name. The code writes no file under either name: on the example the template holds
  \<open>_gitignore\<close>, and after the rendering the project holds neither \<open>.gitignore\<close> nor
  \<open>_gitignore\<close>.
\<close>

theorem renderTemplate_renames_no_file:
  "fst (renderTemplate 3 [''template''] [''project''] exampleTree) = Returned \<and>
   lookup exampleTree [''template'', ''_gitignore''] = Some (File ''node_modules'') \<and>
   lookup (snd (renderTemplate 3 [''template''] [''project''] exampleTree))
     [''project'', ''.gitignore''] = None \<and>
   lookup (snd (renderTemplate 3 [''template''] [''project''] exampleTree))
     [''project'', ''_gitignore''] = None"
  by (simp add: render_example lookup_createdDirs) (simp add: lookup_def exampleTree_def)

text \<open>
  C3. The claim: when the manifest exists at the destination, the rendering writes the
  recursive merge of the two documents. The code reads and writes no manifest: on the
  example both \<open>template/package.json\<close> and \<open>project/package.json\<close> exist, and after the
  rendering \<open>project/package.json\<close> holds the bytes it held before, without the
  template's \<open>version\<close>.
\<close>

theorem renderTemplate_merges_no_manifest:
  "fst (renderTemplate 3 [''template''] [''project''] exampleTree) = Returned \<and>
   lookup exampleTree [''template'', ''package.json''] = Some (File ''{version:1.0.0,deps:{a:1}}'') \<and>
   lookup exampleTree [''project'', ''package.json''] = Some (File ''{name:x,deps:{b:2}}'') \<and>
   lookup (snd (renderTemplate 3 [''template''] [''project''] exampleTree))
     [''project'', ''package.json''] = Some (File ''{name:x,deps:{b:2}}'')"
  by (simp add: render_example lookup_createdDirs) (simp add: lookup_def exampleTree_def)

text \<open>
  C5. A source directory named \<open>node_modules\<close> is skipped entirely: rendering it returns
  at once and leaves the file system as it was; and whatever a rendering into \<open>dest\<close>
  does, however it ends, every path below \<open>dest\<close> with a component \<open>node_modules\<close>
  is after the rendering what it was before, so neither such a directory nor anything
  in it appears in the destination tree.
\<close>

theorem renderTemplate_skips_node_modules:
  "renderTemplate n src dest s = (out, s') \<Longrightarrow>
     (lookup s src = Some Directory \<and> basename src = ''node_modules'' \<and> 0 < n \<longrightarrow>
        out = Returned \<and> s' = s) \<and>
     (\<forall>rel. ''node_modules'' \<in> set rel \<longrightarrow> lookup s' (dest @ rel) = lookup s (dest @ rel))"
proof -
  assume r: "renderTemplate n src dest s = (out, s')"
  then obtain ds where ds: "s' = createdDirs ds s" "\<forall>p\<in>set ds. rendered dest p"
    using renderTemplate_createdDirs by blast
  have 1: "lookup s src = Some Directory \<and> basename src = ''node_modules'' \<and> 0 < n \<longrightarrow>
      out = Returned \<and> s' = s"
    using r by (cases n) (auto simp: statSync_def)
  have 2: "lookup s' (dest @ rel) = lookup s (dest @ rel)" if "''node_modules'' \<in> set rel" for rel
  proof -
    have "\<not> rendered dest (dest @ rel)"
      using that by (auto simp: rendered_def strict_prefix_def)
    then have "dest @ rel \<notin> set ds" using ds(2) by blast
    then show ?thesis using ds(1) by (simp add: lookup_createdDirs split: option.splits)
  qed
  from 1 2 show ?thesis by blast
qed

theorem renderTemplate_skips_node_modules_witness:
  "lookup exampleTree [''template'', ''node_modules''] = Some Directory \<and>
   basename [''template'', ''node_modules''] = ''node_modules'' \<and>
   renderTemplate 1 [''template'', ''node_modules''] [''project'', ''node_modules''] exampleTree =
     (Returned, exampleTree) \<and>
   renderTemplate 3 [''template''] [''project''] exampleTree =
     (Returned, createdDirs [[''project'', ''src'']] exampleTree) \<and>
   lookup (createdDirs [[''project'', ''src'']] exampleTree) [''project'', ''node_modules''] = None \<and>
   lookup (createdDirs [[''project'', ''src'']] exampleTree)
     [''project'', ''node_modules'', ''leftover.txt''] = None"
proof -
  let ?nm = "[''template'', ''node_modules'']"
  let ?s' = "createdDirs [[''project'', ''src'']] exampleTree"
  have d: "lookup exampleTree ?nm = Some Directory"
    by (simp add: lookup_def exampleTree_def)
  have b: "basename ?nm = ''node_modules''"
    by (simp add: basename_def)
  have run: "renderTemplate 1 ?nm [''project'', ''node_modules''] exampleTree =
      (fst (renderTemplate 1 ?nm [''project'', ''node_modules''] exampleTree),
       snd (renderTemplate 1 ?nm [''project'', ''node_modules''] exampleTree))"
    by simp
  have 1: "renderTemplate 1 ?nm [''project'', ''node_modules''] exampleTree = (Returned, exampleTree)"
    using renderTemplate_skips_node_modules[OF run] d b by (simp add: prod_eq_iff)
  have same: "lookup ?s' ([''project''] @ rel) = lookup exampleTree ([''project''] @ rel)"
    if "''node_modules'' \<in> set rel" for rel
    using renderTemplate_skips_node_modules[OF render_example] that by blast
  have 2: "lookup ?s' [''project'', ''node_modules''] = None"
    using same[of "[''node_modules'']"] by (simp add: lookup_def exampleTree_def)
  have 3: "lookup ?s' [''project'', ''node_modules'', ''leftover.txt''] = None"
    using same[of "[''node_modules'', ''leftover.txt'']"] by (simp add: lookup_def exampleTree_def)
  from d b 1 render_example 2 3 show ?thesis by blast
qed




text \<open>
  C9. Whatever the source and the destination, and however the call ends, the only
  mutations \<open>renderTemplate\<close> makes are directory creations: the nodes afterwards are
  the nodes before followed by new directories, and the journal grows by their \<open>Mkdir\<close>
  entries only; a path holds a file with some content afterwards exactly when it did
  before; a directory stays a directory; and when the source is a regular file the file
  system is unchanged.
\<close>

theorem renderTemplate_only_creates_directories:
  "renderTemplate n src dest s = (out, s') \<Longrightarrow>
     (\<exists>ds. nodes s' = nodes s @ map (\<lambda>p. (p, Directory)) ds \<and>
           journal s' = journal s @ map Mkdir ds) \<and>
     (\<forall>p c. lookup s' p = Some (File c) \<longleftrightarrow> lookup s p = Some (File c)) \<and>
     (\<forall>p. lookup s p = Some Directory \<longrightarrow> lookup s' p = Some Directory) \<and>
     (isFileAt s src \<longrightarrow> s' = s)"
proof -
  assume r: "renderTemplate n src dest s = (out, s')"
  then obtain ds where ds: "s' = createdDirs ds s"
    using renderTemplate_createdDirs by blast
  have 1: "\<exists>ds. nodes s' = nodes s @ map (\<lambda>p. (p, Directory)) ds \<and>
           journal s' = journal s @ map Mkdir ds"
    using ds by (auto simp: createdDirs_def)
  have 2: "\<forall>p c. lookup s' p = Some (File c) \<longleftrightarrow> lookup s p = Some (File c)"
    using ds by (auto simp: lookup_createdDirs split: option.splits)
  have 3: "\<forall>p. lookup s p = Some Directory \<longrightarrow> lookup s' p = Some Directory"
    using ds by (auto simp: lookup_createdDirs)
  have 4: "isFileAt s src \<longrightarrow> s' = s"
    using r by (cases n) (auto simp: isFileAt_def statSync_def split: option.splits entry.splits)
  from 1 2 3 4 show ?thesis by blast
qed

theorem renderTemplate_only_creates_directories_witness:
  "renderTemplate 3 [''template''] [''project''] exampleTree =
     (Returned, createdDirs [[''project'', ''src'']] exampleTree) \<and>
   (\<exists>ds. nodes (createdDirs [[''project'', ''src'']] exampleTree) =
            nodes exampleTree @ map (\<lambda>p. (p, Directory)) ds \<and>
         journal (createdDirs [[''project'', ''src'']] exampleTree) =
            journal exampleTree @ map Mkdir ds) \<and>
   lookup (createdDirs [[''project'', ''src'']] exampleTree) [''project'', ''package.json''] =
     Some (File ''{name:x,deps:{b:2}}'') \<and>
   lookup (createdDirs [[''project'', ''src'']] exampleTree) [''project''] = Some Directory \<and>
   isFileAt exampleTree [''template'', ''_gitignore''] \<and>
   snd (renderTemplate 2 [''template'', ''_gitignore''] [''project'', ''_gitignore''] exampleTree) =
     exampleTree"
proof -
  let ?s' = "createdDirs [[''project'', ''src'']] exampleTree"
  let ?g = "[''template'', ''_gitignore'']"
  note all = renderTemplate_only_creates_directories[OF render_example]
  have 1: "\<exists>ds. nodes ?s' = nodes exampleTree @ map (\<lambda>p. (p, Directory)) ds \<and>
      journal ?s' = journal exampleTree @ map Mkdir ds"
    using all by blast
  have m: "lookup exampleTree [''project'', ''package.json''] = Some (File ''{name:x,deps:{b:2}}'')"
    by (simp add: lookup_def exampleTree_def)
  have 2: "lookup ?s' [''project'', ''package.json''] = Some (File ''{name:x,deps:{b:2}}'')"
    using all m by blast
  have d: "lookup exampleTree [''project''] = Some Directory"
    by (simp add: lookup_def exampleTree_def)
  have 3: "lookup ?s' [''project''] = Some Directory"
    using all d by blast
  have f: "isFileAt exampleTree ?g"
    by (simp add: isFileAt_def lookup_def exampleTree_def)
  have run: "renderTemplate 2 ?g [''project'', ''_gitignore''] exampleTree =
      (fst (renderTemplate 2 ?g [''project'', ''_gitignore''] exampleTree),
       snd (renderTemplate 2 ?g [''project'', ''_gitignore''] exampleTree))"
    by simp
  have 4: "snd (renderTemplate 2 ?g [''project'', ''_gitignore''] exampleTree) = exampleTree"
    using renderTemplate_only_creates_directories[OF run] f by blast
  from render_example 1 2 3 f 4 show ?thesis by blast
qed

section \<open>The directory reconciler\<close>

text \<open>
  C4, as the code has it. \<open>canSkipEmptying\<close> returns \<open>true\<close> exactly when the target is
  missing, or is a directory with no entry, or is a directory whose only entry is
  \<open>.git\<close>; for a target that is a directory it returns whether one of the last two
  holds, so every other directory requires confirmation; and for a target that is a
  regular file it returns nothing: \<open>fs.readdirSync\<close> throws.
\<close>

theorem canSkipEmptying_classifies:
  "(canSkipEmptying s dir = Inr True \<longleftrightarrow>
      \<not> existsSync s dir \<or>
      (lookup s dir = Some Directory \<and> (entriesOf s dir = {} \<or> entriesOf s dir = {''.git''}))) \<and>
   (lookup s dir = Some Directory \<longrightarrow>
      canSkipEmptying s dir = Inr (entriesOf s dir = {} \<or> entriesOf s dir = {''.git''})) \<and>
   (isFileAt s dir \<longrightarrow> canSkipEmptying s dir = Inl ENOTDIR)"
proof -
  have e: "entriesOf s dir = {} \<longleftrightarrow> listing s dir = []"
    using set_listing[of s dir] by auto
  have g: "entriesOf s dir = {''.git''} \<longleftrightarrow>
      length (listing s dir) = 1 \<and> listing s dir ! 0 = ''.git''"
    using set_listing[of s dir] distinct_singleton[OF distinct_listing, of s dir "''.git''"]
    by simp
  show ?thesis
    by (cases "lookup s dir")
       (auto simp: canSkipEmptying_def existsSync_def readdirSync_def isFileAt_def e g
             split: entry.splits)
qed

theorem canSkipEmptying_classifies_witness:
  "lookup exampleTree [''repo''] = Some Directory \<and>
   entriesOf exampleTree [''repo''] = {''.git''} \<and>
   canSkipEmptying exampleTree [''repo''] = Inr True \<and>
   lookup exampleTree [''template''] = Some Directory \<and>
   canSkipEmptying exampleTree [''template''] = Inr False \<and>
   isFileAt exampleTree [''project'', ''package.json''] \<and>
   canSkipEmptying exampleTree [''project'', ''package.json''] = Inl ENOTDIR"
proof -
  have d: "lookup exampleTree [''repo''] = Some Directory"
    by (simp add: exampleTree_def lookup_def)
  have "listing exampleTree [''repo''] = [''.git'']"
    by (simp add: listing_def exampleTree_def)
  then have g: "entriesOf exampleTree [''repo''] = {''.git''}"
    using set_listing[of exampleTree "[''repo'']"] by simp
  have 1: "canSkipEmptying exampleTree [''repo''] = Inr True"
    using canSkipEmptying_classifies[of exampleTree "[''repo'']"] d g by simp
  have t: "lookup exampleTree [''template''] = Some Directory"
    by (simp add: exampleTree_def lookup_def)
  have "listing exampleTree [''template''] = [''_gitignore'', ''package.json'', ''node_modules'', ''src'']"
    by (simp add: listing_def exampleTree_def)
  then have "entriesOf exampleTree [''template''] = {''_gitignore'', ''package.json'', ''node_modules'', ''src''}"
    using set_listing[of exampleTree "[''template'']"] by simp
  then have 2: "canSkipEmptying exampleTree [''template''] = Inr False"
    using canSkipEmptying_classifies[of exampleTree "[''template'']"] t by auto
  have f: "isFileAt exampleTree [''project'', ''package.json'']"
    by (simp add: exampleTree_def lookup_def isFileAt_def)
  have 3: "canSkipEmptying exampleTree [''project'', ''package.json''] = Inl ENOTDIR"
    using canSkipEmptying_classifies[of exampleTree "[''project'', ''package.json'']"] f by simp
  from d g 1 t 2 f 3 show ?thesis by blast
qed

text \<open>
  C4, as the claim states it, fails where the target is a regular file: the path exists
  and has no entry, yet the result is neither \<open>true\<close> nor \<open>false\<close> but the error of
  listing something that is not a directory.
\<close>

theorem canSkipEmptying_file_counterexample:
  "existsSync exampleTree [''project'', ''package.json''] \<and>
   entriesOf exampleTree [''project'', ''package.json''] = {} \<and>
   canSkipEmptying exampleTree [''project'', ''package.json''] = Inl ENOTDIR \<and>
   canSkipEmptying exampleTree [''project'', ''package.json''] \<noteq> Inr True \<and>
   canSkipEmptying exampleTree [''project'', ''package.json''] \<noteq> Inr False"
proof -
  have "listing exampleTree [''project'', ''package.json''] = []"
    by (simp add: listing_def exampleTree_def)
  then have "entriesOf exampleTree [''project'', ''package.json''] = {}"
    using set_listing[of exampleTree "[''project'', ''package.json'']"] by simp
  then show ?thesis
    by (simp add: canSkipEmptying_def existsSync_def readdirSync_def exampleTree_def lookup_def)
qed

text \<open>
  C7. \<open>emptyDir\<close> on a path that does not exist returns, whatever the depth bound, and
  the file system, its journal of mutations included, is as it was.
\<close>

theorem emptyDir_missing:
  "\<not> existsSync s dir \<Longrightarrow> emptyDir fuel dir s = (Returned, s)"
  by (simp add: emptyDir_def)

theorem emptyDir_missing_witness:
  "\<not> existsSync exampleTree [''nowhere''] \<and>
   emptyDir 0 [''nowhere''] exampleTree = (Returned, exampleTree)"
proof -
  have h: "\<not> existsSync exampleTree [''nowhere'']"
    by (simp add: existsSync_def exampleTree_def lookup_def)
  show ?thesis using h emptyDir_missing[OF h, of 0] by simp
qed

section \<open>Emptying a directory\<close>

lemma postOrder_append:
  "postOrder (xs @ ys) \<longleftrightarrow>
     postOrder xs \<and> postOrder ys \<and> (\<forall>x\<in>set xs. \<forall>y\<in>set ys. \<not> strict_prefix x y)"
  by (induction xs) (auto simp: list_all_iff)

lemma map_of_filter_keys:
  "map_of (filter (\<lambda>(q, e). P q) xs) p = (if P p then map_of xs p else None)"
  by (induction xs) auto

lemma lookup_prune: "lookup (prune K calls s) p = (if p \<noteq> [] \<and> K p then None else lookup s p)"
  by (simp add: lookup_def prune_def map_of_filter_keys)

lemma keys_prune: "keys (prune K calls s) = {p \<in> keys s. \<not> K p}"
  by (auto simp: prune_def image_iff)

lemma journal_prune: "journal (prune K calls s) = journal s @ calls"
  by (simp add: prune_def)

lemma nodes_prune: "nodes (prune K calls s) = filter (\<lambda>(p, e). \<not> K p) (nodes s)"
  by (simp add: prune_def)

lemma prune_none: "prune (\<lambda>p. False) [] s = s"
  by (simp add: prune_def)

lemma prune_prune: "prune K2 c2 (prune K1 c1 s) = prune (\<lambda>p. K1 p \<or> K2 p) (c1 @ c2) s"
  by (simp add: prune_def case_prod_unfold conj_commute)

lemma prune_cong:
  assumes "\<And>p. p \<in> keys s \<Longrightarrow> K p = K' p"
  shows "prune K calls s = prune K' calls s"
proof -
  have "filter (\<lambda>(p, e). \<not> K p) (nodes s) = filter (\<lambda>(p, e). \<not> K' p) (nodes s)"
  proof (rule filter_cong)
    fix x assume "x \<in> set (nodes s)"
    then have "fst x \<in> keys s" by simp
    then show "(case x of (p, e) \<Rightarrow> \<not> K p) = (case x of (p, e) \<Rightarrow> \<not> K' p)"
      using assms by (simp add: case_prod_unfold)
  qed simp
  then show ?thesis by (simp add: prune_def)
qed

lemma removeNode_prune: "removeNode p call s = prune (\<lambda>q. q = p) [call] s"
  by (simp add: removeNode_def prune_def)

lemma prefix_eq_strict: "prefix x = (\<lambda>p. strict_prefix x p \<or> p = x)"
  by (auto simp: fun_eq_iff strict_prefix_def)

lemma wf_parent:
  "wellFormed s \<Longrightarrow> p \<in> keys s \<Longrightarrow> p \<noteq> [] \<and> lookup s (butlast p) = Some Directory"
  by (auto simp: wellFormed_def list_all_iff)

text \<open>In a well-formed file system whatever has something below it is a directory.\<close>

lemma wf_ancestor:
  "wellFormed s \<Longrightarrow> q @ r \<in> keys s \<Longrightarrow> r \<noteq> [] \<Longrightarrow> lookup s q = Some Directory"
proof (induction r rule: rev_induct)
  case Nil
  then show ?case by simp
next
  case (snoc x r)
  have par: "lookup s (q @ r) = Some Directory"
    using wf_parent[OF snoc.prems(1,2)] by (simp add: butlast_append)
  show ?case
  proof (cases "r = []")
    case True
    then show ?thesis using par by simp
  next
    case False
    then have "q @ r \<in> keys s" using par lookup_keys[of "q @ r" s] by simp
    then show ?thesis using snoc.IH snoc.prems(1) False by simp
  qed
qed

text \<open>Removing whole subtrees keeps a file system well formed.\<close>

lemma wf_prune:
  assumes "wellFormed s" and "\<And>p q. K p \<Longrightarrow> prefix p q \<Longrightarrow> K q"
  shows "wellFormed (prune K calls s)"
proof -
  have "p \<noteq> [] \<and> lookup (prune K calls s) (butlast p) = Some Directory"
    if "p \<in> keys (prune K calls s)" for p
  proof -
    from that have p: "p \<in> keys s" "\<not> K p" by (auto simp: keys_prune)
    have par: "p \<noteq> []" "lookup s (butlast p) = Some Directory"
      using wf_parent[OF assms(1) p(1)] by auto
    have "\<not> K (butlast p)" using assms(2)[of "butlast p" p] p(2) by (auto simp: prefixeq_butlast)
    then show ?thesis using par by (simp add: lookup_prune)
  qed
  then show ?thesis unfolding wellFormed_def list_all_iff by fastforce
qed

lemma traverse_Suc:
  "lookup s d = Some Directory \<Longrightarrow>
   postOrderDirectoryTraverse (Suc n) d rmCallback unlinkCallback s =
     forOf (entryBody n d) (listing s d) s"
  by (simp add: readdirSync_def entryBody_def)

text \<open>The loop body on an entry that is a regular file: the file is unlinked.\<close>

lemma entry_file:
  assumes wf: "wellFormed s" and f: "lookup s (d @ [f]) = Some (File c)"
  shows "\<exists>calls. entryBody n d f s = (Returned, prune (prefix (d @ [f])) calls s) \<and>
           removal (prefix (d @ [f])) s calls"
proof -
  let ?x = "d @ [f]"
  have key: "?x \<in> keys s" using f lookup_keys[of ?x s] by simp
  have only: "(p = ?x) = prefix ?x p" if p: "p \<in> keys s" for p
  proof (cases "p = ?x")
    case True
    then show ?thesis by simp
  next
    case False
    have "\<not> prefix ?x p"
    proof
      assume "prefix ?x p"
      then obtain r where r: "p = ?x @ r" by (auto simp: prefix_def)
      then have "r \<noteq> []" using False by auto
      then have "lookup s ?x = Some Directory" using wf_ancestor[OF wf, of ?x r] p r by simp
      then show False using f by simp
    qed
    then show ?thesis using False by simp
  qed
  have "entryBody n d f s = (Returned, prune (\<lambda>q. q = ?x) [Unlink ?x] s)"
    using f by (simp add: entryBody_def lstatSync_def statSync_def resolve_def unlinkSync_def
        attempt_def removeNode_prune)
  then have 1: "entryBody n d f s = (Returned, prune (prefix ?x) [Unlink ?x] s)"
    using prune_cong[of s "\<lambda>q. q = ?x" "prefix ?x" "[Unlink ?x]"] only by simp
  have "{p \<in> keys s. prefix ?x p} = {?x}" using only key by auto
  then have 2: "removal (prefix ?x) s [Unlink ?x]"
    by (simp add: removal_def)
  from 1 2 show ?thesis by blast
qed

text \<open>
  The loop body on an entry that is a directory, once the traversal of the entry has
  removed what lies below it: the directory is empty by then and \<open>rmdirSync\<close> removes it.
\<close>

lemma entry_directory:
  assumes f: "lookup s (d @ [f]) = Some Directory"
    and tr: "postOrderDirectoryTraverse n (d @ [f]) rmCallback unlinkCallback s =
       (Returned, prune (strict_prefix (d @ [f])) calls s)"
    and rem: "removal (strict_prefix (d @ [f])) s calls"
  shows "entryBody n d f s = (Returned, prune (prefix (d @ [f])) (calls @ [Rmdir (d @ [f])]) s) \<and>
         removal (prefix (d @ [f])) s (calls @ [Rmdir (d @ [f])])"
proof -
  let ?x = "d @ [f]"
  let ?s2 = "prune (strict_prefix ?x) calls s"
  have key: "?x \<in> keys s" using f lookup_keys[of ?x s] by simp
  have l2: "lookup ?s2 ?x = Some Directory" using f by (simp add: lookup_prune)
  have e2: "listing ?s2 ?x = []"
    unfolding listing_empty_iff
  proof
    fix name
    have sp: "strict_prefix ?x (?x @ [name])" by (simp add: strict_prefix_def)
    show "lookup ?s2 (?x @ [name]) = None" using sp by (simp add: lookup_prune)
  qed
  have "rmdirSync ?x ?s2 = Inr (prune (\<lambda>q. q = ?x) [Rmdir ?x] ?s2)"
    using l2 e2 by (simp add: rmdirSync_def removeNode_prune)
  then have 1: "entryBody n d f s = (Returned, prune (prefix ?x) (calls @ [Rmdir ?x]) s)"
    using f tr
    by (simp add: entryBody_def lstatSync_def statSync_def resolve_def attempt_def prune_prune
        prefix_eq_strict)
  have "postOrder (map target calls @ [?x])"
    using rem unfolding removal_def postOrder_append
    by (auto dest: prefix_order.less_asym)
  moreover have "set (map target calls @ [?x]) = {p \<in> keys s. prefix ?x p}"
    using rem key unfolding removal_def by (auto simp: strict_prefix_def)
  ultimately have 2: "removal (prefix ?x) s (calls @ [Rmdir ?x])"
    by (simp add: removal_def)
  from 1 2 show ?thesis by blast
qed

text \<open>
  The loop over the entries of \<open>d\<close>: when the body removes the subtree of each entry it
  is given, the loop removes the subtrees of all of them, one after the other.
\<close>

lemma forOf_entries:
  assumes step: "\<And>f t. f \<in> set names \<Longrightarrow> wellFormed t \<Longrightarrow> keys t \<subseteq> keys s \<Longrightarrow>
        lookup t (d @ [f]) \<noteq> None \<Longrightarrow>
        \<exists>calls. body f t = (Returned, prune (prefix (d @ [f])) calls t) \<and>
                removal (prefix (d @ [f])) t calls"
    and "wellFormed t" and "keys t \<subseteq> keys s" and "distinct names"
    and "\<forall>f\<in>set names. lookup t (d @ [f]) \<noteq> None"
  shows "\<exists>calls. forOf body names t =
            (Returned, prune (\<lambda>p. \<exists>f\<in>set names. prefix (d @ [f]) p) calls t) \<and>
          removal (\<lambda>p. \<exists>f\<in>set names. prefix (d @ [f]) p) t calls"
  using assms
proof (induction names arbitrary: t)
  case Nil
  have "removal (\<lambda>p. False) t []" by (simp add: removal_def)
  moreover have "forOf body [] t = (Returned, prune (\<lambda>p. False) [] t)" by (simp add: prune_none)
  ultimately show ?case by auto
next
  case (Cons f rest)
  let ?x = "d @ [f]"
  let ?K = "\<lambda>p. \<exists>g\<in>set rest. prefix (d @ [g]) p"
  from Cons.prems(1)[of f t] Cons.prems(2,3,5) obtain c1 where c1:
    "body f t = (Returned, prune (prefix ?x) c1 t)" "removal (prefix ?x) t c1"
    by auto
  let ?t1 = "prune (prefix ?x) c1 t"
  have wf1: "wellFormed ?t1"
    by (rule wf_prune[OF Cons.prems(2)]) (rule prefix_order.trans)
  have k1: "keys ?t1 \<subseteq> keys s" using Cons.prems(3) by (auto simp: keys_prune)
  have sib: "\<not> prefix ?x (d @ [g])" if "g \<in> set rest" for g
    using that Cons.prems(4) by auto
  have l1: "\<forall>g\<in>set rest. lookup ?t1 (d @ [g]) \<noteq> None"
    using Cons.prems(5) sib by (simp add: lookup_prune)
  have "\<exists>calls. forOf body rest ?t1 = (Returned, prune ?K calls ?t1) \<and> removal ?K ?t1 calls"
  proof (rule Cons.IH[OF _ wf1 k1 _ l1])
    show "distinct rest" using Cons.prems(4) by simp
  next
    fix g u
    assume "g \<in> set rest" "wellFormed u" "keys u \<subseteq> keys s" "lookup u (d @ [g]) \<noteq> None"
    then show "\<exists>calls. body g u = (Returned, prune (prefix (d @ [g])) calls u) \<and>
        removal (prefix (d @ [g])) u calls"
      using Cons.prems(1)[of g u] by simp
  qed
  then obtain c2 where c2: "forOf body rest ?t1 = (Returned, prune ?K c2 ?t1)" "removal ?K ?t1 c2"
    by blast
  have run: "forOf body (f # rest) t =
      (Returned, prune (\<lambda>p. \<exists>g\<in>set (f # rest). prefix (d @ [g]) p) (c1 @ c2) t)"
    using c1(1) c2(1) by (simp add: prune_prune)
  have apart: "\<forall>x\<in>set (map target c1). \<forall>y\<in>set (map target c2). \<not> strict_prefix x y"
  proof (intro ballI notI)
    fix x y
    assume x: "x \<in> set (map target c1)" and y: "y \<in> set (map target c2)"
      and xy: "strict_prefix x y"
    from x c1(2) have "prefix ?x x" by (auto simp: removal_def)
    then have 1: "prefix ?x y" using xy by (auto simp: strict_prefix_def)
    from y c2(2) obtain g where g: "g \<in> set rest" "prefix (d @ [g]) y" by (auto simp: removal_def)
    from 1 g(2) have "f = g" by (auto simp: prefix_def)
    then show False using g(1) Cons.prems(4) by simp
  qed
  have "set (map target (c1 @ c2)) = {p \<in> keys t. \<exists>g\<in>set (f # rest). prefix (d @ [g]) p}"
    using c1(2) c2(2) by (auto simp: removal_def keys_prune)
  then have "removal (\<lambda>p. \<exists>g\<in>set (f # rest). prefix (d @ [g]) p) t (c1 @ c2)"
    using c1(2) c2(2) apart by (simp add: removal_def postOrder_append)
  with run show ?case by blast
qed

text \<open>
  In a well-formed file system a node lies below \<open>d\<close> exactly when it lies at or below
  an entry of \<open>d\<close>.
\<close>

lemma below_entry:
  assumes wf: "wellFormed s" and p: "p \<in> keys s"
  shows "strict_prefix d p \<longleftrightarrow> (\<exists>f\<in>set (listing s d). prefix (d @ [f]) p)"
proof
  assume "strict_prefix d p"
  then obtain f r where r: "p = d @ f # r" by (rule strict_prefixE')
  have "lookup s (d @ [f]) \<noteq> None"
  proof (cases "r = []")
    case True
    then show ?thesis using p r lookup_keys[of "d @ [f]" s] by simp
  next
    case False
    then show ?thesis using wf_ancestor[OF wf, of "d @ [f]" r] p r by simp
  qed
  then have "f \<in> set (listing s d)" by (simp add: set_listing entriesOf_def)
  then show "\<exists>f\<in>set (listing s d). prefix (d @ [f]) p" using r by auto
next
  assume "\<exists>f\<in>set (listing s d). prefix (d @ [f]) p"
  then show "strict_prefix d p" by (auto simp: strict_prefix_def prefix_def)
qed

text \<open>
  The traversal as \<open>emptyDir\<close> runs it, on a directory of a well-formed file system
  with nothing more than \<open>n\<close> levels below it: it returns, and it has removed exactly
  the nodes below the directory, in post-order.
\<close>

lemma traverse_removes:
  "wellFormed s \<Longrightarrow> lookup s d = Some Directory \<Longrightarrow>
   \<forall>p\<in>keys s. strict_prefix d p \<longrightarrow> length p \<le> length d + n \<Longrightarrow>
   \<exists>calls. postOrderDirectoryTraverse (Suc n) d rmCallback unlinkCallback s =
       (Returned, prune (strict_prefix d) calls s) \<and> removal (strict_prefix d) s calls"
proof (induction n arbitrary: d s)
  case 0
  have none: "\<not> strict_prefix d p" if "p \<in> keys s" for p
    using "0.prems"(3) that by (fastforce simp: strict_prefix_def prefix_def)
  have "listing s d = []"
    unfolding listing_empty_iff
  proof
    fix name
    have "d @ [name] \<notin> keys s" using none[of "d @ [name]"] by (auto simp: strict_prefix_def)
    then show "lookup s (d @ [name]) = None" using lookup_keys[of "d @ [name]" s] by simp
  qed
  then have "postOrderDirectoryTraverse (Suc 0) d rmCallback unlinkCallback s = (Returned, s)"
    using traverse_Suc[OF "0.prems"(2), of 0] by simp
  moreover have "prune (strict_prefix d) [] s = s"
    using prune_cong[of s "strict_prefix d" "\<lambda>p. False" "[]"] none by (simp add: prune_none)
  moreover have "removal (strict_prefix d) s []"
    using none by (auto simp: removal_def)
  ultimately show ?case by metis
next
  case (Suc n)
  note wf = Suc.prems(1) and dir = Suc.prems(2) and bound = Suc.prems(3)
  let ?K = "\<lambda>p. \<exists>f\<in>set (listing s d). prefix (d @ [f]) p"
  have "\<exists>calls. forOf (entryBody (Suc n) d) (listing s d) s = (Returned, prune ?K calls s) \<and>
      removal ?K s calls"
  proof (rule forOf_entries[where s = s])
    fix f t
    assume t: "wellFormed t" "keys t \<subseteq> keys s" "lookup t (d @ [f]) \<noteq> None"
    from t(3) obtain e where e: "lookup t (d @ [f]) = Some e" by auto
    show "\<exists>calls. entryBody (Suc n) d f t = (Returned, prune (prefix (d @ [f])) calls t) \<and>
        removal (prefix (d @ [f])) t calls"
    proof (cases e)
      case (File c)
      then show ?thesis using entry_file[OF t(1), of d f c "Suc n"] e by simp
    next
      case Directory
      have b: "\<forall>p\<in>keys t. strict_prefix (d @ [f]) p \<longrightarrow> length p \<le> length (d @ [f]) + n"
      proof (intro ballI impI)
        fix p assume p: "p \<in> keys t" and sp: "strict_prefix (d @ [f]) p"
        have "p \<in> keys s" using p t(2) by blast
        moreover have "strict_prefix d p" using sp by (auto simp: strict_prefix_def prefix_def)
        ultimately show "length p \<le> length (d @ [f]) + n" using bound by fastforce
      qed
      from Suc.IH[OF t(1) _ b] e Directory obtain calls where
        "postOrderDirectoryTraverse (Suc n) (d @ [f]) rmCallback unlinkCallback t =
           (Returned, prune (strict_prefix (d @ [f])) calls t)"
        "removal (strict_prefix (d @ [f])) t calls"
        by auto
      then show ?thesis using entry_directory[of t d f "Suc n" calls] e Directory by blast
    qed
  next
    show "wellFormed s" by (rule wf)
    show "keys s \<subseteq> keys s" by simp
    show "distinct (listing s d)" by (rule distinct_listing)
    show "\<forall>f\<in>set (listing s d). lookup s (d @ [f]) \<noteq> None"
      by (simp add: set_listing entriesOf_def)
  qed
  then obtain calls where c:
    "forOf (entryBody (Suc n) d) (listing s d) s = (Returned, prune ?K calls s)"
    "removal ?K s calls" by blast
  have eq: "prune ?K calls s = prune (strict_prefix d) calls s"
  proof (rule prune_cong)
    fix p assume "p \<in> keys s"
    then show "?K p = strict_prefix d p" using below_entry[OF wf] by simp
  qed
  have "{p \<in> keys s. ?K p} = {p \<in> keys s. strict_prefix d p}"
    using below_entry[OF wf] by blast
  then have "removal (strict_prefix d) s calls" using c(2) by (simp add: removal_def)
  then show ?case
    using traverse_Suc[OF dir, of "Suc n"] c(1) eq by metis
qed

text \<open>
  C6. \<open>emptyDir\<close> on an existing directory of a well-formed file system, with a depth
  bound that covers what lies below the directory: it returns; the nodes left are those
  that were not below the directory, so every descendant is removed and nothing else;
  a listing of the directory, which still exists, is empty; and the journal grows by
  removals only, of exactly the paths of the descendants, in post-order: nothing is
  removed after one of its ancestors, so every child of a directory is removed before
  the directory.
\<close>

theorem emptyDir_removes_descendants:
  assumes "wellFormed s" and "lookup s dir = Some Directory"
    and "\<forall>p\<in>fst ` set (nodes s). strict_prefix dir p \<longrightarrow> length p \<le> length dir + n"
  shows "\<exists>s' calls. emptyDir (Suc n) dir s = (Returned, s') \<and>
      nodes s' = filter (\<lambda>(p, e). \<not> strict_prefix dir p) (nodes s) \<and>
      readdirSync s' dir = Inr [] \<and>
      journal s' = journal s @ calls \<and>
      postOrder (map target calls) \<and>
      set (map target calls) = {p \<in> fst ` set (nodes s). strict_prefix dir p}"
proof -
  from traverse_removes[OF assms] obtain calls where c:
    "postOrderDirectoryTraverse (Suc n) dir rmCallback unlinkCallback s =
       (Returned, prune (strict_prefix dir) calls s)" "removal (strict_prefix dir) s calls"
    by blast
  let ?s' = "prune (strict_prefix dir) calls s"
  have 1: "emptyDir (Suc n) dir s = (Returned, ?s')"
    using c(1) assms(2) by (simp add: emptyDir_def existsSync_def del: postOrderDirectoryTraverse.simps)
  have l: "lookup ?s' dir = Some Directory" using assms(2) by (simp add: lookup_prune)
  have "listing ?s' dir = []"
    unfolding listing_empty_iff
  proof
    fix name
    have "strict_prefix dir (dir @ [name])" by (simp add: strict_prefix_def)
    then show "lookup ?s' (dir @ [name]) = None" by (simp add: lookup_prune)
  qed
  then have 2: "readdirSync ?s' dir = Inr []" using l by (simp add: readdirSync_def)
  show ?thesis
    using 1 2 c(2) by (auto simp: removal_def nodes_prune journal_prune)
qed

theorem emptyDir_removes_descendants_witness:
  "wellFormed exampleTree \<and>
   lookup exampleTree [''template''] = Some Directory \<and>
   emptyDir 3 [''template''] exampleTree =
     (Returned,
      \<lparr>nodes =
         [([''template''], Directory),
          ([''project''], Directory),
          ([''project'', ''package.json''], File ''{name:x,deps:{b:2}}''),
          ([''repo''], Directory),
          ([''repo'', ''.git''], Directory)],
       journal =
         [Unlink [''template'', ''_gitignore''],
          Unlink [''template'', ''package.json''],
          Unlink [''template'', ''node_modules'', ''leftover.txt''],
          Rmdir [''template'', ''node_modules''],
          Unlink [''template'', ''src'', ''main.ts''],
          Rmdir [''template'', ''src'']]\<rparr>) \<and>
   (\<exists>s' calls. emptyDir 3 [''template''] exampleTree = (Returned, s') \<and>
      nodes s' = filter (\<lambda>(p, e). \<not> strict_prefix [''template''] p) (nodes exampleTree) \<and>
      readdirSync s' [''template''] = Inr [] \<and>
      journal s' = journal exampleTree @ calls \<and>
      postOrder (map target calls) \<and>
      set (map target calls) =
        {p \<in> fst ` set (nodes exampleTree). strict_prefix [''template''] p})"
proof -
  have wf: "wellFormed exampleTree"
    by (simp add: wellFormed_def exampleTree_def lookup_def)
  have d: "lookup exampleTree [''template''] = Some Directory"
    by (simp add: exampleTree_def lookup_def)
  have b: "\<forall>p\<in>fst ` set (nodes exampleTree).
      strict_prefix [''template''] p \<longrightarrow> length p \<le> length [''template''] + 2"
    by (simp add: exampleTree_def)
  have run: "emptyDir 3 [''template''] exampleTree =
     (Returned,
      \<lparr>nodes =
         [([''template''], Directory),
          ([''project''], Directory),
          ([''project'', ''package.json''], File ''{name:x,deps:{b:2}}''),
          ([''repo''], Directory),
          ([''repo'', ''.git''], Directory)],
       journal =
         [Unlink [''template'', ''_gitignore''],
          Unlink [''template'', ''package.json''],
          Unlink [''template'', ''node_modules'', ''leftover.txt''],
          Rmdir [''template'', ''node_modules''],
          Unlink [''template'', ''src'', ''main.ts''],
          Rmdir [''template'', ''src'']]\<rparr>)"
    by (simp add: eval_nat_numeral emptyDir_def existsSync_def readdirSync_def lstatSync_def
        statSync_def lookup_def exampleTree_def listing_def resolve_def attempt_def
        rmdirSync_def unlinkSync_def removeNode_def)
  have three: "Suc 2 = 3" by simp
  from emptyDir_removes_descendants[OF wf d b] wf d run show ?thesis
    unfolding three by blast
qed

end
